theory Spec2Isabelle
  imports Main
begin

section \<open>gic_sec Adventure: the scene and state orchestration of main.js\<close>

text \<open>
  The program is a Phaser 3 presentation of seven scenes. What it computes itself is
  small: a shared \<open>gameState\<close> object with two mappings, a few fields on the scene
  instances, the overlay helper \<open>createOverlay\<close>, and one handler per trigger. These are
  translated below, handler by handler. Phaser is the environment: it decides which
  handler is called and when. The environment is modelled by the events of \<open>step\<close>;
  the conditions under which Phaser delivers each event are written there and nowhere
  else.
\<close>

subsection \<open>Numbers of the bridge stage\<close>

text \<open>
  \<open>NapiScene.update\<close> adds the literal \<open>0.05\<close> to \<open>buildProgress\<close>, which is an IEEE-754
  double. The literal is not 1/20 and the sums are rounded, so the arithmetic is modelled
  exactly: a number is counted in units of \<open>2^-57\<close> (the last binary place of
  the double \<open>0.05\<close>), and every result is rounded to 53 significant bits, ties to even.
  All values of the stage lie between \<open>0\<close> and \<open>400\<close>, far from overflow and from the
  subnormal range, where this is the whole of the rounding rule.
\<close>

type_synonym number = nat

fun bits :: "nat \<Rightarrow> nat" where
  "bits n = (if n = 0 then 0 else Suc (bits (n div 2)))"

declare bits.simps [simp del]

definition round53 :: "nat \<Rightarrow> number" where
  "round53 n =
     (if n < 2 ^ 53 then n
      else let e = bits n - 53;
               q = n div 2 ^ e;
               r = n mod 2 ^ e;
               half = 2 ^ (e - 1)
           in (if half < r \<or> (r = half \<and> odd q) then q + 1 else q) * 2 ^ e)"

definition ONE :: number where
  "ONE = 2 ^ 57"

definition STEP :: number where
  \<comment> \<open>the double written \<open>0.05\<close>: \<open>0x1.999999999999ap-5\<close>\<close>
  "STEP = 7205759403792794"

definition num_add :: "number \<Rightarrow> number \<Rightarrow> number" where
  "num_add a b = round53 (a + b)"

definition num_times400 :: "number \<Rightarrow> number" where
  \<comment> \<open>\<open>400 * x\<close>: the factor is an integer, so the exact product keeps the unit\<close>
  "num_times400 a = round53 (400 * a)"

subsection \<open>Data\<close>

datatype scene_key =
  BootScene | TitleScene | BenefitScene | NapiScene | BuildScene | ExampleScene
  | ConclusionScene

datatype error = TypeError

text \<open>
  The argument of \<open>createOverlay\<close>: a field that the caller leaves out is \<open>undefined\<close>,
  here \<open>None\<close>.
\<close>

record content =
  title :: "string option"
  body :: "string option"
  code_text :: "string option"
  output_text :: "string option"

datatype element =
  Background | Panel | TitleText "string option" | BodyText "string option"
  | CodeText string | OutputText string | CloseButton

text \<open>
  One overlay on a display list: the container made by \<open>createOverlay\<close>, its children,
  and the scene it was made for. \<open>oid\<close> stands for the identity of the container
  object. Each scene calls \<open>createOverlay\<close> at one place only, so the scene also tells
  which \<open>then\<close> callback waits on the returned promise.
\<close>

record overlay =
  oid :: nat
  owner :: scene_key
  elements :: "element list"

record anim_def =
  key :: string
  frames :: "(string \<times> string) list"
  frameRate :: int
  repeat :: int

text \<open>
  The JSON cache after preload: a file that failed to load has no entry. Of the
  animation file only the field \<open>anims\<close> is read; it may be absent.
\<close>

record json =
  anims_field :: "anim_def list option"

type_synonym json_cache = "string \<rightharpoonup> json"

record station =
  skey :: string
  label :: string
  scode :: string
  run_async :: bool

record step_text =
  step_title :: string
  step_body :: string

text \<open>
  The whole mutable state: \<open>gameState\<close> (the first two fields), Phaser's registered
  animations and running scene, the fields of the scene instances, and the display
  lists as far as overlays go. The scene instances are constructed once, when the game
  is constructed; \<open>scene.start\<close> runs \<open>create\<close> again on the same instance.
  \<open>overlay_seq\<close> numbers the containers; \<open>resolved\<close> records every call of a
  promise's \<open>resolve\<close>, in order; \<open>pending\<close> holds the stations whose \<open>run()\<close>
  promise has not settled yet.
\<close>

record game =
  benefitsCollected :: "string \<rightharpoonup> bool"
  examplesVisited :: "string \<rightharpoonup> bool"
  anims :: "anim_def list"
  active :: scene_key
  benefits :: "string list"
  benefit_nextButton :: bool
  buildProgress :: number
  overlayShown :: bool
  progressBar :: number
  napi_nextButton :: bool
  stepIndex :: nat
  build_nextButton :: bool
  example_nextButton :: bool
  pending :: "station list"
  overlays :: "overlay list"
  overlay_seq :: nat
  resolved :: "nat list"

definition truthy :: "(string \<rightharpoonup> bool) \<Rightarrow> string \<Rightarrow> bool" where
  \<comment> \<open>\<open>if (obj[k])\<close> for an object literal holding booleans. Names inherited from
      \<open>Object.prototype\<close> are not modelled: no zone of the game carries one as its key.\<close>
  "truthy m k = (m k = Some True)"

definition nonempty :: "string option \<Rightarrow> bool" where
  \<comment> \<open>\<open>if (code)\<close>: \<open>undefined\<close> and the empty string are falsy\<close>
  "nonempty t = (case t of None \<Rightarrow> False | Some x \<Rightarrow> x \<noteq> [])"

definition game0 :: game where
  \<comment> \<open>after \<open>new Phaser.Game(config)\<close>: the constructors have run, BootScene is loading\<close>
  "game0 = \<lparr> benefitsCollected = Map.empty, examplesVisited = Map.empty, anims = [],
     active = BootScene, benefits = [], benefit_nextButton = False,
     buildProgress = 0, overlayShown = False, progressBar = 0, napi_nextButton = False,
     stepIndex = 0, build_nextButton = False, example_nextButton = False,
     pending = [], overlays = [], overlay_seq = 0, resolved = [] \<rparr>"

subsection \<open>The fixed content\<close>

text \<open>
  The prose of the panels is shortened and written in ASCII; nothing below depends on
  its wording.
\<close>

definition benefit_keys :: "string list" where
  "benefit_keys = [''performance'', ''memory'', ''concurrency'', ''lowlevel'', ''integration'']"

definition benefit_content :: "string \<Rightarrow> content" where
  \<comment> \<open>the \<open>switch\<close> of \<open>collectBenefit\<close>; without a matching case both stay undefined\<close>
  "benefit_content k =
     (if k = ''performance'' then
        \<lparr> title = Some ''Performance'', body = Some ''Rust code runs close to the metal.'',
          code_text = None, output_text = None \<rparr>
      else if k = ''memory'' then
        \<lparr> title = Some ''Memory Safety'', body = Some ''Rust prevents common pitfalls.'',
          code_text = None, output_text = None \<rparr>
      else if k = ''concurrency'' then
        \<lparr> title = Some ''Concurrency'', body = Some ''Fearless concurrency.'',
          code_text = None, output_text = None \<rparr>
      else if k = ''lowlevel'' then
        \<lparr> title = Some ''Low-level Control'', body = Some ''Fine-grained control.'',
          code_text = None, output_text = None \<rparr>
      else if k = ''integration'' then
        \<lparr> title = Some ''Seamless Integration'', body = Some ''napi-rs exposes Rust to Node.'',
          code_text = None, output_text = None \<rparr>
      else \<lparr> title = None, body = None, code_text = None, output_text = None \<rparr>)"

definition napi_content :: content where
  "napi_content =
     \<lparr> title = Some ''napi-rs'', body = Some ''napi-rs bridges Rust with Node.js.'',
       code_text = None, output_text = None \<rparr>"

definition steps :: "step_text list" where
  "steps =
     [ \<lparr> step_title = ''Initialise a package'', step_body = ''npm init -y'' \<rparr>,
       \<lparr> step_title = ''Install napi-rs CLI'', step_body = ''npm install -g @napi-rs/cli'' \<rparr>,
       \<lparr> step_title = ''Add the Rust crate'', step_body = ''Copy the gic_sec crate.'' \<rparr>,
       \<lparr> step_title = ''Build the addon'', step_body = ''napi build --release'' \<rparr>,
       \<lparr> step_title = ''Link in package.json'', step_body = ''gic-sec: file:./gic_sec'' \<rparr>,
       \<lparr> step_title = ''Install dependencies'', step_body = ''npm install'' \<rparr> ]"

definition step_content :: "step_text \<Rightarrow> content" where
  "step_content st =
     \<lparr> title = Some (step_title st), body = Some (step_body st), code_text = None, output_text = None \<rparr>"

definition stations :: "station list" where
  \<comment> \<open>only the hashing station's \<open>run\<close> is an async function\<close>
  "stations =
     [ \<lparr> skey = ''jwt'', label = ''JWT Encode/Decode'', scode = ''gic.encodeJwt(...)'',
         run_async = False \<rparr>,
       \<lparr> skey = ''password'', label = ''Generate Password'', scode = ''gic.generatePassword(...)'',
         run_async = False \<rparr>,
       \<lparr> skey = ''hashing'', label = ''SHA-256 & SHA-512'', scode = ''gic.hashSha256(...)'',
         run_async = True \<rparr>,
       \<lparr> skey = ''random'', label = ''Random base64 & UUID'', scode = ''gic.randomBase64(32)'',
         run_async = False \<rparr> ]"

definition station_keys :: "string list" where
  "station_keys = map skey stations"

subsection \<open>createOverlay and its Close button\<close>

definition overlay_elements :: "content \<Rightarrow> element list" where
  "overlay_elements c =
     [Background, Panel, TitleText (title c), BodyText (body c)]
     @ (if nonempty (code_text c) then [CodeText (the (code_text c))] else [])
     @ (if nonempty (output_text c) then [OutputText (the (output_text c))] else [])
     @ [CloseButton]"

definition createOverlay :: "scene_key \<Rightarrow> content \<Rightarrow> game \<Rightarrow> game" where
  "createOverlay scene c s =
     s \<lparr> overlays := overlays s @ [\<lparr> oid = overlay_seq s, owner = scene,
                                      elements = overlay_elements c \<rparr>],
         overlay_seq := Suc (overlay_seq s) \<rparr>"

definition allCollected :: "game \<Rightarrow> bool" where
  "allCollected s = list_all (truthy (benefitsCollected s)) benefit_keys"

definition allVisited :: "game \<Rightarrow> bool" where
  "allVisited s = list_all (\<lambda>st. truthy (examplesVisited s) (skey st)) stations"

definition then_callback :: "scene_key \<Rightarrow> game \<Rightarrow> game" where
  \<comment> \<open>the function each scene passes to \<open>createOverlay(...).then\<close>\<close>
  "then_callback scene s =
     (case scene of
        BenefitScene \<Rightarrow> if allCollected s then s \<lparr> benefit_nextButton := True \<rparr> else s
      | NapiScene \<Rightarrow> s \<lparr> napi_nextButton := True \<rparr>
      | BuildScene \<Rightarrow>
          if length steps \<le> stepIndex s then s \<lparr> build_nextButton := True \<rparr> else s
      | ExampleScene \<Rightarrow> if allVisited s then s \<lparr> example_nextButton := True \<rparr> else s
      | _ \<Rightarrow> s)"

definition closeButton_pointerdown :: "overlay \<Rightarrow> game \<Rightarrow> game" where
  \<comment> \<open>\<open>overlay.destroy(); resolve();\<close> and then the waiting callback\<close>
  "closeButton_pointerdown ov s =
     then_callback (owner ov)
       (s \<lparr> overlays := filter (\<lambda>v. oid v \<noteq> oid ov) (overlays s),
            resolved := resolved s @ [oid ov] \<rparr>)"

subsection \<open>Starting a scene\<close>

definition scene_create :: "scene_key \<Rightarrow> game \<Rightarrow> game" where
  \<comment> \<open>what each \<open>create()\<close> assigns, of the fields kept here\<close>
  "scene_create k s =
     (case k of
        BenefitScene \<Rightarrow> s \<lparr> benefits := benefit_keys, benefit_nextButton := False \<rparr>
      | NapiScene \<Rightarrow> s \<lparr> progressBar := 0, napi_nextButton := False \<rparr>
      | BuildScene \<Rightarrow> s \<lparr> build_nextButton := False \<rparr>
      | ExampleScene \<Rightarrow> s \<lparr> example_nextButton := False \<rparr>
      | _ \<Rightarrow> s)"

definition scene_start :: "scene_key \<Rightarrow> game \<Rightarrow> game" where
  \<comment> \<open>\<open>this.scene.start(k)\<close>: Phaser shuts the calling scene down, which destroys the
      objects on its display list, and runs \<open>create()\<close> of scene \<open>k\<close>\<close>
  "scene_start k s =
     scene_create k
       (s \<lparr> active := k, overlays := filter (\<lambda>v. owner v \<noteq> active s) (overlays s) \<rparr>)"

subsection \<open>The handlers\<close>

definition register_anim :: "anim_def list \<Rightarrow> anim_def \<Rightarrow> anim_def list" where
  \<comment> \<open>\<open>if (this.anims.exists(def.key)) return; this.anims.create({...})\<close>\<close>
  "register_anim reg d = (if key d \<in> set (map key reg) then reg else reg @ [d])"

definition BootScene_create :: "json_cache \<Rightarrow> game \<Rightarrow> error + game" where
  \<comment> \<open>\<open>this.cache.json.get('robotAnims').anims || []\<close>: reading \<open>.anims\<close> of
      \<open>undefined\<close> throws\<close>
  "BootScene_create cache s =
     (case cache ''robotAnims'' of
        None \<Rightarrow> Inl TypeError
      | Some j \<Rightarrow>
          let animDefs = (case anims_field j of None \<Rightarrow> [] | Some ds \<Rightarrow> ds)
          in Inr (scene_start TitleScene (s \<lparr> anims := foldl register_anim (anims s) animDefs \<rparr>)))"

definition collectBenefit :: "string \<Rightarrow> game \<Rightarrow> game" where
  "collectBenefit k s =
     (if truthy (benefitsCollected s) k then s
      else createOverlay BenefitScene (benefit_content k)
             (s \<lparr> benefitsCollected := (benefitsCollected s)(k \<mapsto> True),
                  benefits := removeAll k (benefits s) \<rparr>))"

definition NapiScene_update :: "bool \<Rightarrow> game \<Rightarrow> game" where
  \<comment> \<open>the argument is \<open>Phaser.Input.Keyboard.JustDown(this.spaceKey)\<close>\<close>
  "NapiScene_update justDown s =
     (if justDown then
        let s1 = s \<lparr> buildProgress := min ONE (num_add (buildProgress s) STEP) \<rparr>;
            s2 = s1 \<lparr> progressBar := num_times400 (buildProgress s1) \<rparr>
        in if ONE \<le> buildProgress s2 \<and> \<not> overlayShown s2
           then createOverlay NapiScene napi_content (s2 \<lparr> overlayShown := True \<rparr>)
           else s2
      else s)"

definition reachSign :: "nat \<Rightarrow> game \<Rightarrow> error + game" where
  \<comment> \<open>the argument is \<open>sign.stepIndex\<close>; destructuring an \<open>undefined\<close> step throws\<close>
  "reachSign i s =
     (if i = stepIndex s then
        (if stepIndex s < length steps
         then Inr (createOverlay BuildScene (step_content (steps ! stepIndex s))
                     (s \<lparr> stepIndex := Suc (stepIndex s) \<rparr>))
         else Inl TypeError)
      else Inr s)"

definition showOverlay :: "station \<Rightarrow> string \<Rightarrow> game \<Rightarrow> game" where
  "showOverlay st out s =
     createOverlay ExampleScene
       \<lparr> title = Some (label st), body = Some ''Here is how you use the API:'',
         code_text = Some (scode st), output_text = Some out \<rparr> s"

definition visitStation :: "string \<Rightarrow> string \<Rightarrow> game \<Rightarrow> error + game" where
  \<comment> \<open>\<open>out\<close> is \<open>String(station.run())\<close> of a synchronous station; \<open>station.run\<close> of
      an \<open>undefined\<close> station throws\<close>
  "visitStation k out s =
     (if truthy (examplesVisited s) k then Inr s
      else let s1 = s \<lparr> examplesVisited := (examplesVisited s)(k \<mapsto> True) \<rparr>
           in case find (\<lambda>st. skey st = k) stations of
                None \<Rightarrow> Inl TypeError
              | Some st \<Rightarrow>
                  if run_async st then Inr (s1 \<lparr> pending := pending s1 @ [st] \<rparr>)
                  else Inr (showOverlay st out s1))"

definition run_settled :: "string \<Rightarrow> game \<Rightarrow> game" where
  \<comment> \<open>\<open>result.then(showOverlay)\<close>: the oldest pending promise resolves with \<open>out\<close>\<close>
  "run_settled out s =
     (case pending s of
        [] \<Rightarrow> s
      | st # rest \<Rightarrow> showOverlay st out (s \<lparr> pending := rest \<rparr>))"

definition exitButton_pointerdown :: "game \<Rightarrow> game" where
  "exitButton_pointerdown s =
     scene_start TitleScene (s \<lparr> benefitsCollected := Map.empty, examplesVisited := Map.empty \<rparr>)"

subsection \<open>The environment: which handler Phaser calls\<close>

text \<open>
  Only the running scene is updated and receives input; a game object that is not
  visible receives no pointer event; an overlap callback is called with a live member
  of the group it was registered for. Nothing in \<open>createOverlay\<close> pauses the scene or
  disables its input, so no event below asks whether an overlay is open. A promise
  returned by a station's \<open>run()\<close> settles with a value at some later moment
  (\<open>Settled\<close>), whatever scene is running then; its rejection is not modelled.
\<close>

datatype event =
    Loaded json_cache
  | PlayClick
  | NextClick
  | Overlap_benefit string
  | SpaceDown
  | Overlap_sign nat
  | Overlap_station string string
  | Settled string
  | CloseClick nat
  | ReplayClick

definition next_scene :: "game \<Rightarrow> scene_key option" where
  \<comment> \<open>the target of the running scene's Next button, when the button is visible\<close>
  "next_scene s =
     (case active s of
        BenefitScene \<Rightarrow> if benefit_nextButton s then Some NapiScene else None
      | NapiScene \<Rightarrow> if napi_nextButton s then Some BuildScene else None
      | BuildScene \<Rightarrow> if build_nextButton s then Some ExampleScene else None
      | ExampleScene \<Rightarrow> if example_nextButton s then Some ConclusionScene else None
      | _ \<Rightarrow> None)"

definition step :: "event \<Rightarrow> game \<Rightarrow> error + game" where
  "step e s =
     (case e of
        Loaded cache \<Rightarrow> if active s = BootScene then BootScene_create cache s else Inr s
      | PlayClick \<Rightarrow> Inr (if active s = TitleScene then scene_start BenefitScene s else s)
      | NextClick \<Rightarrow> Inr (case next_scene s of None \<Rightarrow> s | Some k \<Rightarrow> scene_start k s)
      | Overlap_benefit k \<Rightarrow>
          Inr (if active s = BenefitScene \<and> k \<in> set (benefits s) then collectBenefit k s else s)
      | SpaceDown \<Rightarrow> Inr (if active s = NapiScene then NapiScene_update True s else s)
      | Overlap_sign i \<Rightarrow>
          if active s = BuildScene \<and> i < length steps then reachSign i s else Inr s
      | Overlap_station k out \<Rightarrow>
          if active s = ExampleScene \<and> k \<in> set station_keys then visitStation k out s
          else Inr s
      | Settled out \<Rightarrow> Inr (run_settled out s)
      | CloseClick i \<Rightarrow>
          Inr (case find (\<lambda>v. oid v = i \<and> owner v = active s) (overlays s) of
                 None \<Rightarrow> s
               | Some ov \<Rightarrow> closeButton_pointerdown ov s)
      | ReplayClick \<Rightarrow>
          Inr (if active s = ConclusionScene then exitButton_pointerdown s else s))"

fun run :: "event list \<Rightarrow> game \<Rightarrow> error + game" where
  "run [] s = Inr s"
| "run (e # es) s = (case step e s of Inl err \<Rightarrow> Inl err | Inr s' \<Rightarrow> run es s')"

subsection \<open>Notions used in the statements\<close>

definition owned :: "scene_key \<Rightarrow> game \<Rightarrow> overlay list" where
  \<comment> \<open>the overlays open on the display list of a scene\<close>
  "owned k s = filter (\<lambda>v. owner v = k) (overlays s)"

fun presses :: "nat \<Rightarrow> game \<Rightarrow> game" where
  \<comment> \<open>\<open>k\<close> frames of the bridge stage in which SPACE was just pressed\<close>
  "presses 0 s = s"
| "presses (Suc k) s = NapiScene_update True (presses k s)"


fun sign_walk :: "nat \<Rightarrow> nat \<Rightarrow> event list" where
  \<comment> \<open>touch the signposts \<open>0, ..., n - 1\<close> in order, closing each panel before walking
      on; \<open>base\<close> is the number of the first panel\<close>
  "sign_walk base 0 = []"
| "sign_walk base (Suc n) = sign_walk base n @ [Overlap_sign n, CloseClick (base + n)]"

definition good_cache :: json_cache where
  \<comment> \<open>a cache in which the animation file has loaded, with no animation in it\<close>
  "good_cache = [''robotAnims'' \<mapsto> \<lparr> anims_field = Some [] \<rparr>]"

text \<open>
  A sample playthrough, cut at the moments the statements below are tried on. The sample
  states are what the run returns; \<open>projr\<close> only takes them out of \<open>Inr\<close>.
\<close>

definition trace_benefits :: "event list" where
  \<comment> \<open>all five benefits collected, the last panel still open\<close>
  "trace_benefits =
     [Loaded good_cache, PlayClick,
      Overlap_benefit ''integration'', CloseClick 0,
      Overlap_benefit ''memory'', CloseClick 1,
      Overlap_benefit ''lowlevel'', CloseClick 2,
      Overlap_benefit ''performance'', CloseClick 3,
      Overlap_benefit ''concurrency'']"

definition trace_bridge :: "event list" where
  \<comment> \<open>on to the bridge stage, before the first press\<close>
  "trace_bridge = trace_benefits @ [CloseClick 4, NextClick]"

definition trace_signs :: "event list" where
  \<comment> \<open>twenty presses, the panel closed, on to the build steps\<close>
  "trace_signs = trace_bridge @ replicate 20 SpaceDown @ [CloseClick 5, NextClick]"

definition trace_stations :: "event list" where
  \<comment> \<open>all signposts, then all four stations, the last panel still open\<close>
  "trace_stations =
     trace_signs @ sign_walk 6 6 @
     [NextClick,
      Overlap_station ''random'' ''r'', CloseClick 12,
      Overlap_station ''hashing'' [], Overlap_station ''jwt'' ''j'', CloseClick 13,
      Settled ''h'', CloseClick 14,
      Overlap_station ''password'' ''p'']"

definition trace_finish :: "event list" where
  \<comment> \<open>the last panel closed\<close>
  "trace_finish = trace_stations @ [CloseClick 15]"

definition trace_conclusion :: "event list" where
  "trace_conclusion = trace_finish @ [NextClick]"

definition trace_again :: "event list" where
  \<comment> \<open>after Play Again: the benefits once more, then the bridge stage and two presses\<close>
  "trace_again =
     [PlayClick,
      Overlap_benefit ''performance'', CloseClick 16,
      Overlap_benefit ''memory'', CloseClick 17,
      Overlap_benefit ''concurrency'', CloseClick 18,
      Overlap_benefit ''lowlevel'', CloseClick 19,
      Overlap_benefit ''integration'', CloseClick 20,
      NextClick, SpaceDown, SpaceDown]"

definition trace_two_panels :: "event list" where
  \<comment> \<open>two benefits touched one after the other, no panel closed in between\<close>
  "trace_two_panels =
     [Loaded good_cache, PlayClick, Overlap_benefit ''performance'', Overlap_benefit ''memory'']"



definition st_two_panels :: game where
  "st_two_panels = projr (run trace_two_panels game0)"

definition st_benefits :: game where
  "st_benefits = projr (run trace_benefits game0)"



definition st_stations :: game where
  "st_stations = projr (run trace_stations game0)"

definition st_finish :: game where
  "st_finish = projr (run trace_finish game0)"

definition st_conclusion :: game where
  "st_conclusion = projr (run trace_conclusion game0)"

definition st_again :: game where
  "st_again = projr (run trace_again (exitButton_pointerdown st_conclusion))"

text \<open>Facts that hold in every state the game can reach; each is proved below.\<close>

definition keys_ok :: "game \<Rightarrow> bool" where
  "keys_ok s =
     (dom (benefitsCollected s) \<subseteq> set benefit_keys
      \<and> dom (examplesVisited s) \<subseteq> set station_keys
      \<and> set (benefits s) \<subseteq> set benefit_keys)"

definition fresh_ok :: "game \<Rightarrow> bool" where
  "fresh_ok s =
     ((\<forall>v \<in> set (overlays s).
         oid v < overlay_seq s \<and> (owner v = active s \<or> owner v = ExampleScene)
         \<and> owner v \<noteq> BootScene \<and> owner v \<noteq> TitleScene \<and> owner v \<noteq> ConclusionScene)
      \<and> distinct (map oid (overlays s))
      \<and> distinct (resolved s)
      \<and> (\<forall>i \<in> set (resolved s). i < overlay_seq s \<and> i \<notin> oid ` set (overlays s)))"

definition session_ok :: "game \<Rightarrow> bool" where
  "session_ok s =
     ((active s = BootScene \<or> active s = TitleScene \<longrightarrow> benefitsCollected s = Map.empty)
      \<and> (active s \<noteq> ExampleScene \<and> active s \<noteq> ConclusionScene
           \<longrightarrow> examplesVisited s = Map.empty))"

definition benefit_ok :: "game \<Rightarrow> bool" where
  "benefit_ok s =
     (active s = BenefitScene \<longrightarrow>
        (benefit_nextButton s \<longrightarrow> allCollected s)
        \<and> (allCollected s \<longrightarrow> benefit_nextButton s \<or> owned BenefitScene s \<noteq> []))"

definition example_ok :: "game \<Rightarrow> bool" where
  "example_ok s =
     (active s = ExampleScene \<longrightarrow>
        (example_nextButton s \<longrightarrow> allVisited s)
        \<and> (allVisited s \<longrightarrow>
               example_nextButton s \<or> owned ExampleScene s \<noteq> [] \<or> pending s \<noteq> []))"

definition napi_ok :: "game \<Rightarrow> bool" where
  "napi_ok s =
     ((overlayShown s \<longrightarrow> buildProgress s = ONE)
      \<and> (napi_nextButton s \<longrightarrow> overlayShown s)
      \<and> (owned NapiScene s \<noteq> [] \<longrightarrow> overlayShown s)
      \<and> (active s = BuildScene \<or> active s = ExampleScene \<or> active s = ConclusionScene
           \<longrightarrow> overlayShown s))"

definition build_ok :: "game \<Rightarrow> bool" where
  "build_ok s =
     (stepIndex s \<le> length steps
      \<and> (build_nextButton s \<longrightarrow> stepIndex s = length steps)
      \<and> (active s = ExampleScene \<or> active s = ConclusionScene
           \<longrightarrow> stepIndex s = length steps))"

text \<open>
  What a second playthrough starts from and never leaves: the bridge is already built
  and its panel already shown, every build step is already taken, and the game is in
  one of the first three stages with no panel of the bridge stage open.
\<close>

definition second_run :: "game \<Rightarrow> bool" where
  "second_run s =
     (buildProgress s = ONE \<and> overlayShown s \<and> stepIndex s = length steps
      \<and> (active s = TitleScene \<or> active s = BenefitScene \<or> active s = NapiScene)
      \<and> owned NapiScene s = []
      \<and> (active s = NapiScene \<longrightarrow> \<not> napi_nextButton s))"

definition build_stuck :: "game \<Rightarrow> bool" where
  "build_stuck s =
     (active s = BuildScene \<and> stepIndex s = length steps \<and> \<not> build_nextButton s
      \<and> owned BuildScene s = [])"

section \<open>Auxiliary facts\<close>

subsection \<open>Runs and transitions\<close>

lemma run_append:
  "run (es @ fs) s = (case run es s of Inl err \<Rightarrow> Inl err | Inr s' \<Rightarrow> run fs s')"
  by (induction es arbitrary: s) (auto split: sum.splits)

lemma run_invariant:
  assumes "run es s0 = Inr s" and "P s0"
    and "\<And>e s s'. P s \<Longrightarrow> step e s = Inr s' \<Longrightarrow> P s'"
  shows "P s"
  using assms(1,2)
proof (induction es arbitrary: s0)
  case Nil
  then show ?case by simp
next
  case (Cons e es)
  then show ?case by (auto split: sum.splits intro: assms(3))
qed

lemma scene_start_fields [simp]:
  "benefitsCollected (scene_start k s) = benefitsCollected s"
  "examplesVisited (scene_start k s) = examplesVisited s"
  "anims (scene_start k s) = anims s"
  "active (scene_start k s) = k"
  "benefits (scene_start k s) = (if k = BenefitScene then benefit_keys else benefits s)"
  "benefit_nextButton (scene_start k s) = (k \<noteq> BenefitScene \<and> benefit_nextButton s)"
  "buildProgress (scene_start k s) = buildProgress s"
  "overlayShown (scene_start k s) = overlayShown s"
  "progressBar (scene_start k s) = (if k = NapiScene then 0 else progressBar s)"
  "napi_nextButton (scene_start k s) = (k \<noteq> NapiScene \<and> napi_nextButton s)"
  "stepIndex (scene_start k s) = stepIndex s"
  "build_nextButton (scene_start k s) = (k \<noteq> BuildScene \<and> build_nextButton s)"
  "example_nextButton (scene_start k s) = (k \<noteq> ExampleScene \<and> example_nextButton s)"
  "pending (scene_start k s) = pending s"
  "overlays (scene_start k s) = filter (\<lambda>v. owner v \<noteq> active s) (overlays s)"
  "overlay_seq (scene_start k s) = overlay_seq s"
  "resolved (scene_start k s) = resolved s"
  by (cases k; simp add: scene_start_def scene_create_def)+

lemma then_callback_fields [simp]:
  "benefitsCollected (then_callback k s) = benefitsCollected s"
  "examplesVisited (then_callback k s) = examplesVisited s"
  "anims (then_callback k s) = anims s"
  "active (then_callback k s) = active s"
  "benefits (then_callback k s) = benefits s"
  "benefit_nextButton (then_callback k s) =
     (benefit_nextButton s \<or> (k = BenefitScene \<and> allCollected s))"
  "buildProgress (then_callback k s) = buildProgress s"
  "overlayShown (then_callback k s) = overlayShown s"
  "progressBar (then_callback k s) = progressBar s"
  "napi_nextButton (then_callback k s) = (napi_nextButton s \<or> k = NapiScene)"
  "stepIndex (then_callback k s) = stepIndex s"
  "build_nextButton (then_callback k s) =
     (build_nextButton s \<or> (k = BuildScene \<and> length steps \<le> stepIndex s))"
  "example_nextButton (then_callback k s) =
     (example_nextButton s \<or> (k = ExampleScene \<and> allVisited s))"
  "pending (then_callback k s) = pending s"
  "overlays (then_callback k s) = overlays s"
  "overlay_seq (then_callback k s) = overlay_seq s"
  "resolved (then_callback k s) = resolved s"
  by (cases k; simp add: then_callback_def)+

lemma next_scene_Some:
  "next_scene s = Some k \<longleftrightarrow>
     (active s = BenefitScene \<and> benefit_nextButton s \<and> k = NapiScene)
     \<or> (active s = NapiScene \<and> napi_nextButton s \<and> k = BuildScene)
     \<or> (active s = BuildScene \<and> build_nextButton s \<and> k = ExampleScene)
     \<or> (active s = ExampleScene \<and> example_nextButton s \<and> k = ConclusionScene)"
  by (cases "active s") (auto simp: next_scene_def)

lemma find_station:
  "find (\<lambda>st. skey st = k) stations = Some st \<Longrightarrow> st \<in> set stations \<and> skey st = k"
  by (auto simp: find_Some_iff)

lemma find_overlay:
  "find (\<lambda>v. oid v = i \<and> owner v = a) vs = Some ov \<Longrightarrow> ov \<in> set vs \<and> oid ov = i \<and> owner ov = a"
  by (auto simp: find_Some_iff)

lemma step_cases [consumes 1, case_names idle boot play advance collect space sign visit wait settled close replay]:
  assumes "step e s = Inr s'"
  obtains
    "s' = s"
  | c j where "e = Loaded c" "active s = BootScene" "c ''robotAnims'' = Some j"
      "s' = scene_start TitleScene
              (s \<lparr> anims := foldl register_anim (anims s)
                                (case anims_field j of None \<Rightarrow> [] | Some ds \<Rightarrow> ds) \<rparr>)"
  | "e = PlayClick" "active s = TitleScene" "s' = scene_start BenefitScene s"
  | k where "e = NextClick" "next_scene s = Some k" "s' = scene_start k s"
  | k where "e = Overlap_benefit k" "active s = BenefitScene" "k \<in> set (benefits s)"
      "\<not> truthy (benefitsCollected s) k"
      "s' = createOverlay BenefitScene (benefit_content k)
              (s \<lparr> benefitsCollected := (benefitsCollected s)(k \<mapsto> True),
                   benefits := removeAll k (benefits s) \<rparr>)"
  | "e = SpaceDown" "active s = NapiScene" "s' = NapiScene_update True s"
  | "e = Overlap_sign (stepIndex s)" "active s = BuildScene" "stepIndex s < length steps"
      "s' = createOverlay BuildScene (step_content (steps ! stepIndex s))
              (s \<lparr> stepIndex := Suc (stepIndex s) \<rparr>)"
  | k out st where "e = Overlap_station k out" "active s = ExampleScene"
      "st \<in> set stations" "skey st = k" "\<not> truthy (examplesVisited s) k" "\<not> run_async st"
      "s' = showOverlay st out (s \<lparr> examplesVisited := (examplesVisited s)(k \<mapsto> True) \<rparr>)"
  | k out st where "e = Overlap_station k out" "active s = ExampleScene"
      "st \<in> set stations" "skey st = k" "\<not> truthy (examplesVisited s) k" "run_async st"
      "s' = s \<lparr> examplesVisited := (examplesVisited s)(k \<mapsto> True),
                pending := pending s @ [st] \<rparr>"
  | out st rest where "e = Settled out" "pending s = st # rest"
      "s' = showOverlay st out (s \<lparr> pending := rest \<rparr>)"
  | ov where "e = CloseClick (oid ov)" "ov \<in> set (overlays s)" "owner ov = active s"
      "s' = closeButton_pointerdown ov s"
  | "e = ReplayClick" "active s = ConclusionScene" "s' = exitButton_pointerdown s"
proof (cases e)
  case (Loaded c)
  with assms show ?thesis
    by (auto simp: step_def BootScene_create_def Let_def split: if_splits option.splits intro: that(1,2))
next
  case PlayClick
  with assms show ?thesis
    by (auto simp: step_def split: if_splits intro: that(1,3))
next
  case NextClick
  with assms show ?thesis
    by (auto simp: step_def split: option.splits intro: that(1,4))
next
  case (Overlap_benefit k)
  with assms show ?thesis
    by (auto simp: step_def collectBenefit_def split: if_splits intro: that(1,5))
next
  case SpaceDown
  with assms show ?thesis
    by (auto simp: step_def split: if_splits intro: that(1,6))
next
  case (Overlap_sign i)
  with assms show ?thesis
    by (auto simp: step_def reachSign_def split: if_splits intro: that(1,7))
next
  case (Overlap_station k out)
  with assms show ?thesis
    by (auto simp: step_def visitStation_def Let_def split: if_splits option.splits
             dest!: find_station intro: that(1,8,9))
next
  case (Settled out)
  with assms show ?thesis
    by (auto simp: step_def run_settled_def split: list.splits intro: that(1,10))
next
  case (CloseClick i)
  with assms show ?thesis
    by (auto simp: step_def split: option.splits dest!: find_overlay intro: that(1,11))
next
  case ReplayClick
  with assms show ?thesis
    by (auto simp: step_def split: if_splits intro: that(1,12))
qed

lemmas plain_defs = createOverlay_def closeButton_pointerdown_def exitButton_pointerdown_def
  showOverlay_def NapiScene_update_def Let_def

lemma keys_ok_step:
  assumes "keys_ok s" "step e s = Inr s'"
  shows "keys_ok s'"
  using assms(2,1)
proof (cases rule: step_cases)
  case (collect k)
  with assms(1) show ?thesis
    by (auto simp: keys_ok_def plain_defs split: if_splits)
next
  case (visit k out st)
  with assms(1) show ?thesis
    by (auto simp: keys_ok_def plain_defs station_keys_def split: if_splits)
next
  case (wait k out st)
  with assms(1) show ?thesis
    by (auto simp: keys_ok_def plain_defs station_keys_def split: if_splits)
qed (auto simp: keys_ok_def plain_defs)

lemma fresh_ok_step:
  assumes "fresh_ok s" "step e s = Inr s'"
  shows "fresh_ok s'"
  using assms(2,1)
proof (cases rule: step_cases)
  case (close ov)
  with assms(1) show ?thesis
    by (auto simp: fresh_ok_def plain_defs distinct_map_filter)
next
  case (advance k)
  with assms(1) show ?thesis
    by (auto simp: fresh_ok_def plain_defs distinct_map_filter next_scene_Some)
qed (auto simp: fresh_ok_def plain_defs distinct_map_filter)

lemma session_ok_step:
  assumes "session_ok s" "step e s = Inr s'"
  shows "session_ok s'"
  using assms(2,1)
proof (cases rule: step_cases)
  case (advance k)
  with assms(1) show ?thesis
    by (auto simp: session_ok_def plain_defs next_scene_Some)
qed (auto simp: session_ok_def plain_defs)

lemma not_allCollected_empty: "benefitsCollected s = Map.empty \<Longrightarrow> \<not> allCollected s"
  by (simp add: allCollected_def benefit_keys_def truthy_def)

lemma not_allVisited_empty: "examplesVisited s = Map.empty \<Longrightarrow> \<not> allVisited s"
  by (simp add: allVisited_def stations_def truthy_def)

lemma truthy_upd [simp]: "truthy (m(k \<mapsto> True)) k' = (k' = k \<or> truthy m k')"
  by (simp add: truthy_def)

lemma allCollected_mono:
  "allCollected s \<Longrightarrow> (\<And>k. truthy (benefitsCollected s) k \<Longrightarrow> truthy (benefitsCollected s') k)
     \<Longrightarrow> allCollected s'"
  by (simp add: allCollected_def list_all_iff)

lemma allVisited_mono:
  "allVisited s \<Longrightarrow> (\<And>k. truthy (examplesVisited s) k \<Longrightarrow> truthy (examplesVisited s') k)
     \<Longrightarrow> allVisited s'"
  by (simp add: allVisited_def list_all_iff)

lemma benefit_ok_step:
  assumes "benefit_ok s" "session_ok s" "step e s = Inr s'"
  shows "benefit_ok s'"
  using assms(3,1,2)
proof (cases rule: step_cases)
  case play
  with assms(2) have "benefitsCollected s' = Map.empty"
    by (simp add: session_ok_def)
  with play show ?thesis
    by (simp add: benefit_ok_def not_allCollected_empty)
next
  case (advance k)
  then show ?thesis
    by (auto simp: benefit_ok_def next_scene_Some)
next
  case (collect k)
  then have "owned BenefitScene s' \<noteq> []" "benefit_nextButton s' = benefit_nextButton s"
    by (simp_all add: owned_def plain_defs)
  moreover have "allCollected s \<Longrightarrow> allCollected s'"
    using collect by (erule_tac allCollected_mono) (simp add: plain_defs)
  ultimately show ?thesis
    using assms(1) collect(2) by (simp add: benefit_ok_def)
next
  case (close ov)
  then have "allCollected s' = allCollected s"
    by (simp add: allCollected_def plain_defs)
  with close assms(1) show ?thesis
    by (auto simp: benefit_ok_def owned_def plain_defs allCollected_def filter_empty_conv)
qed (auto simp: benefit_ok_def owned_def plain_defs allCollected_def)

lemma example_ok_step:
  assumes "example_ok s" "session_ok s" "step e s = Inr s'"
  shows "example_ok s'"
  using assms(3,1,2)
proof (cases rule: step_cases)
  case (advance k)
  show ?thesis
  proof (cases "k = ExampleScene")
    case True
    with advance assms(2) have "examplesVisited s' = Map.empty"
      by (auto simp: session_ok_def next_scene_Some)
    with advance True show ?thesis
      by (simp add: example_ok_def not_allVisited_empty)
  next
    case False
    with advance show ?thesis by (simp add: example_ok_def)
  qed
next
  case (visit k out st)
  then have "owned ExampleScene s' \<noteq> []" "example_nextButton s' = example_nextButton s"
    by (simp_all add: owned_def plain_defs)
  moreover have "allVisited s \<Longrightarrow> allVisited s'"
    using visit by (erule_tac allVisited_mono) (simp add: plain_defs)
  ultimately show ?thesis
    using assms(1) visit(2) by (simp add: example_ok_def)
next
  case (wait k out st)
  then have "pending s' \<noteq> []" "example_nextButton s' = example_nextButton s"
    by simp_all
  moreover have "allVisited s \<Longrightarrow> allVisited s'"
    using wait by (erule_tac allVisited_mono) simp
  ultimately show ?thesis
    using assms(1) wait(2) by (simp add: example_ok_def)
next
  case (settled out st rest)
  with assms(1) show ?thesis
    by (auto simp: example_ok_def owned_def plain_defs allVisited_def)
next
  case (close ov)
  then have "allVisited s' = allVisited s"
    by (simp add: allVisited_def plain_defs)
  with close assms(1) show ?thesis
    by (auto simp: example_ok_def owned_def plain_defs allVisited_def filter_empty_conv)
qed (auto simp: example_ok_def owned_def plain_defs allVisited_def)
lemmas num_defs = round53_def num_add_def num_times400_def ONE_def STEP_def bits.simps Let_def




lemma press_at_ONE: "min ONE (num_add ONE STEP) = ONE"
  by (simp add: num_defs)


lemma update_fields [simp]:
  "benefitsCollected (NapiScene_update b s) = benefitsCollected s"
  "examplesVisited (NapiScene_update b s) = examplesVisited s"
  "anims (NapiScene_update b s) = anims s"
  "active (NapiScene_update b s) = active s"
  "benefits (NapiScene_update b s) = benefits s"
  "benefit_nextButton (NapiScene_update b s) = benefit_nextButton s"
  "buildProgress (NapiScene_update b s) =
     (if b then min ONE (num_add (buildProgress s) STEP) else buildProgress s)"
  "napi_nextButton (NapiScene_update b s) = napi_nextButton s"
  "stepIndex (NapiScene_update b s) = stepIndex s"
  "build_nextButton (NapiScene_update b s) = build_nextButton s"
  "example_nextButton (NapiScene_update b s) = example_nextButton s"
  "pending (NapiScene_update b s) = pending s"
  "resolved (NapiScene_update b s) = resolved s"
  by (simp_all add: NapiScene_update_def createOverlay_def Let_def)

lemma update_overlay:
  "overlayShown (NapiScene_update True s) =
     (overlayShown s \<or> ONE \<le> min ONE (num_add (buildProgress s) STEP))"
  "overlays (NapiScene_update True s) =
     overlays s @
     (if ONE \<le> min ONE (num_add (buildProgress s) STEP) \<and> \<not> overlayShown s
      then [\<lparr> oid = overlay_seq s, owner = NapiScene, elements = overlay_elements napi_content \<rparr>]
      else [])"
  "overlay_seq (NapiScene_update True s) =
     (if ONE \<le> min ONE (num_add (buildProgress s) STEP) \<and> \<not> overlayShown s
      then Suc (overlay_seq s) else overlay_seq s)"
  "progressBar (NapiScene_update True s) =
     num_times400 (min ONE (num_add (buildProgress s) STEP))"
  by (auto simp: NapiScene_update_def createOverlay_def Let_def)

lemma napi_ok_step:
  assumes "napi_ok s" "step e s = Inr s'"
  shows "napi_ok s'"
  using assms(2,1)
proof (cases rule: step_cases)
  case space
  with assms(1) show ?thesis
    by (auto simp: napi_ok_def owned_def update_overlay press_at_ONE)
next
  case (advance k)
  with assms(1) show ?thesis
    by (auto simp: napi_ok_def owned_def next_scene_Some filter_empty_conv)
next
  case (close ov)
  with assms(1) show ?thesis
    by (auto simp: napi_ok_def owned_def closeButton_pointerdown_def filter_empty_conv)
qed (auto simp: napi_ok_def owned_def createOverlay_def showOverlay_def
       exitButton_pointerdown_def filter_empty_conv)

lemma build_ok_step:
  assumes "build_ok s" "step e s = Inr s'"
  shows "build_ok s'"
  using assms(2,1)
proof (cases rule: step_cases)
  case (advance k)
  with assms(1) show ?thesis
    by (auto simp: build_ok_def next_scene_Some)
next
  case (close ov)
  with assms(1) show ?thesis
    by (auto simp: build_ok_def closeButton_pointerdown_def)
qed (auto simp: build_ok_def createOverlay_def showOverlay_def exitButton_pointerdown_def)

lemma second_run_step:
  assumes "second_run s" "step e s = Inr s'"
  shows "second_run s'"
  using assms(2,1)
proof (cases rule: step_cases)
  case space
  with assms(1) show ?thesis
    by (auto simp: second_run_def owned_def update_overlay press_at_ONE)
next
  case (advance k)
  with assms(1) show ?thesis
    by (auto simp: second_run_def owned_def next_scene_Some filter_empty_conv)
next
  case (close ov)
  with assms(1) show ?thesis
    by (auto simp: second_run_def owned_def closeButton_pointerdown_def filter_empty_conv)
qed (auto simp: second_run_def owned_def createOverlay_def showOverlay_def
       exitButton_pointerdown_def filter_empty_conv)

lemma build_stuck_step:
  assumes "build_stuck s" "step e s = Inr s'"
  shows "build_stuck s'"
  using assms(2,1)
proof (cases rule: step_cases)
  case (advance k)
  with assms(1) show ?thesis
    by (auto simp: build_stuck_def next_scene_Some)
next
  case (close ov)
  with assms(1) show ?thesis
    by (auto simp: build_stuck_def owned_def filter_empty_conv)
qed (auto simp: build_stuck_def owned_def createOverlay_def showOverlay_def
       exitButton_pointerdown_def filter_empty_conv)

lemma game0_ok:
  "keys_ok game0" "fresh_ok game0" "session_ok game0" "benefit_ok game0" "example_ok game0"
  "napi_ok game0" "build_ok game0"
  by (simp_all add: game0_def keys_ok_def fresh_ok_def session_ok_def benefit_ok_def
        example_ok_def napi_ok_def build_ok_def owned_def)

lemma reachable_ok:
  assumes "run es game0 = Inr s"
  shows "keys_ok s \<and> fresh_ok s \<and> session_ok s \<and> benefit_ok s \<and> example_ok s
         \<and> napi_ok s \<and> build_ok s"
  using assms
proof (rule run_invariant)
  show "keys_ok game0 \<and> fresh_ok game0 \<and> session_ok game0 \<and> benefit_ok game0
        \<and> example_ok game0 \<and> napi_ok game0 \<and> build_ok game0"
    by (simp add: game0_ok)
next
  fix e s s'
  assume "keys_ok s \<and> fresh_ok s \<and> session_ok s \<and> benefit_ok s \<and> example_ok s
          \<and> napi_ok s \<and> build_ok s"
    and "step e s = Inr s'"
  then show "keys_ok s' \<and> fresh_ok s' \<and> session_ok s' \<and> benefit_ok s' \<and> example_ok s'
             \<and> napi_ok s' \<and> build_ok s'"
    by (blast intro: keys_ok_step fresh_ok_step session_ok_step benefit_ok_step
          example_ok_step napi_ok_step build_ok_step)
qed


lemma presses_frame [simp]:
  "benefitsCollected (presses k s) = benefitsCollected s"
  "examplesVisited (presses k s) = examplesVisited s"
  "active (presses k s) = active s"
  "napi_nextButton (presses k s) = napi_nextButton s"
  "stepIndex (presses k s) = stepIndex s"
  "resolved (presses k s) = resolved s"
  by (induction k) simp_all


subsection \<open>The sample playthrough\<close>

lemmas eval_defs = step_def BootScene_create_def scene_start_def scene_create_def
  collectBenefit_def NapiScene_update_def reachSign_def visitStation_def showOverlay_def
  run_settled_def exitButton_pointerdown_def closeButton_pointerdown_def then_callback_def
  createOverlay_def overlay_elements_def next_scene_def allCollected_def allVisited_def
  truthy_def nonempty_def benefit_keys_def station_keys_def stations_def steps_def
  benefit_content_def napi_content_def step_content_def good_cache_def game0_def owned_def
  register_anim_def

lemma sample_benefits:
  "run trace_benefits game0 = Inr st_benefits"
  "active st_benefits = BenefitScene"
  "map oid (overlays st_benefits) = [4]"
  "overlay_seq st_benefits = 5"
  by (simp_all add: st_benefits_def trace_benefits_def eval_defs)


lemmas trace_defs = trace_benefits_def trace_bridge_def trace_signs_def trace_stations_def
  trace_finish_def trace_conclusion_def trace_again_def

lemma replicate_20: "replicate 20 x = [x, x, x, x, x, x, x, x, x, x, x, x, x, x, x, x, x, x, x, x]"
  by (simp add: eval_nat_numeral)

lemma sign_walk_6:
  "sign_walk b 6 =
     [Overlap_sign 0, CloseClick b, Overlap_sign 1, CloseClick (b + 1),
      Overlap_sign 2, CloseClick (b + 2), Overlap_sign 3, CloseClick (b + 3),
      Overlap_sign 4, CloseClick (b + 4), Overlap_sign 5, CloseClick (b + 5)]"
  by (simp add: eval_nat_numeral)


lemma sample_stations:
  "run trace_stations game0 = Inr st_stations"
  "active st_stations = ExampleScene"
  "allVisited st_stations"
  "\<not> example_nextButton st_stations"
  "map oid (overlays st_stations) = [15]"
  "pending st_stations = []"
  "map owner (overlays st_stations) = [ExampleScene]"
  by (simp_all add: st_stations_def trace_defs replicate_20 sign_walk_6 eval_defs num_defs)

lemma sample_finish:
  "run trace_finish game0 = Inr st_finish"
  "active st_finish = ExampleScene"
  "overlays st_finish = []"
  "example_nextButton st_finish"
  by (simp_all add: st_finish_def trace_defs replicate_20 sign_walk_6 eval_defs num_defs)

lemma close_last_panel: "step (CloseClick 15) st_stations = Inr st_finish"
proof -
  have "run trace_finish game0 = run [CloseClick 15] st_stations"
    by (simp add: trace_finish_def run_append sample_stations(1))
  then show ?thesis
    by (cases "step (CloseClick 15) st_stations") (simp_all add: sample_finish(1))
qed

lemma sample_conclusion:
  "run trace_conclusion game0 = Inr st_conclusion"
  "active st_conclusion = ConclusionScene"
  by (simp_all add: st_conclusion_def trace_defs replicate_20 sign_walk_6 eval_defs num_defs)

subsection \<open>Presses of the bridge stage as events\<close>



subsection \<open>One signpost after the other\<close>

lemma length_steps: "length steps = 6"
  by (simp add: steps_def)




subsection \<open>Flags and stations\<close>

lemma flags_step:
  assumes "step e s = Inr s'" "e \<noteq> ReplayClick"
  shows "(truthy (benefitsCollected s) k \<longrightarrow> truthy (benefitsCollected s') k)
       \<and> (truthy (examplesVisited s) k \<longrightarrow> truthy (examplesVisited s') k)"
  using assms
  by (cases rule: step_cases) (auto simp: plain_defs)

lemma allVisited_iff:
  "allVisited s \<longleftrightarrow> (\<forall>k \<in> set station_keys. truthy (examplesVisited s) k)"
  by (simp add: allVisited_def station_keys_def list_all_iff)

lemma visit_total:
  assumes "k \<in> set station_keys"
  shows "\<exists>s'. visitStation k out s = Inr s' \<and> truthy (examplesVisited s') k"
proof (cases "truthy (examplesVisited s) k")
  case True
  then show ?thesis by (simp add: visitStation_def)
next
  case False
  from assms obtain st where "find (\<lambda>st. skey st = k) stations = Some st"
    by (cases "find (\<lambda>st. skey st = k) stations") (auto simp: find_None_iff station_keys_def)
  with False show ?thesis
    by (simp add: visitStation_def showOverlay_def createOverlay_def Let_def)
qed

subsection \<open>Panels and their promises\<close>

lemma resolved_step:
  assumes "step e s = Inr s'"
  shows "resolved s' = resolved s
       \<or> (\<exists>v \<in> set (overlays s). e = CloseClick (oid v) \<and> owner v = active s
             \<and> resolved s' = resolved s @ [oid v]
             \<and> oid v \<notin> oid ` set (overlays s')
             \<and> overlays s' = filter (\<lambda>w. oid w \<noteq> oid v) (overlays s))"
  using assms
  by (cases rule: step_cases) (auto simp: plain_defs)

lemma create_then_close:
  assumes "fresh_ok s"
  shows "overlays (createOverlay k c s) =
           overlays s @ [\<lparr> oid = overlay_seq s, owner = k, elements = overlay_elements c \<rparr>]
       \<and> resolved (createOverlay k c s) = resolved s
       \<and> overlay_seq s \<notin> oid ` set (overlays s) \<and> overlay_seq s \<notin> set (resolved s)
       \<and> overlays (closeButton_pointerdown (last (overlays (createOverlay k c s)))
                      (createOverlay k c s)) = overlays s
       \<and> resolved (closeButton_pointerdown (last (overlays (createOverlay k c s)))
                      (createOverlay k c s)) = resolved s @ [overlay_seq s]"
  using assms
  by (auto simp: fresh_ok_def plain_defs filter_id_conv)

subsection \<open>After Play Again\<close>

lemma replay_second_run:
  assumes "run es game0 = Inr s" "active s = ConclusionScene"
  shows "second_run (exitButton_pointerdown s)"
proof -
  from assms(1) have "napi_ok s" "build_ok s" "fresh_ok s"
    by (simp_all add: reachable_ok)
  with assms(2) show ?thesis
    by (auto simp: second_run_def napi_ok_def build_ok_def fresh_ok_def owned_def
          exitButton_pointerdown_def filter_empty_conv)
qed

lemma replay_frame:
  assumes "run es game0 = Inr s" "active s = ConclusionScene"
  shows "exitButton_pointerdown s =
           s \<lparr> benefitsCollected := Map.empty, examplesVisited := Map.empty,
               active := TitleScene \<rparr>"
proof -
  from assms(1) have "fresh_ok s"
    by (simp add: reachable_ok)
  with assms(2) have "filter (\<lambda>v. owner v \<noteq> active s) (overlays s) = overlays s"
    by (auto simp: fresh_ok_def filter_id_conv)
  then show ?thesis
    by (simp add: exitButton_pointerdown_def scene_start_def scene_create_def)
qed

lemma sample_again:
  "run trace_again (exitButton_pointerdown st_conclusion) = Inr st_again"
  "active st_again = NapiScene"
  "\<not> napi_nextButton st_again"
  "overlays st_again = []"
  by (simp_all add: st_again_def st_conclusion_def trace_defs replicate_20 sign_walk_6
        eval_defs num_defs)

section \<open>The claims\<close>

subsection \<open>C1: the benefit stage\<close>

text \<open>
  C1. In the benefit stage the Next button becomes visible if and only if all five
  benefit keys are true in \<open>benefitsCollected\<close>, and collecting a key that is already
  true is a no-op. In every state the game reaches with the benefit stage running: a
  visible button means that all five keys are true; when all five are true and no
  panel of the stage is open any more, the button is visible; closing a panel leaves
  the button visible exactly when it was visible before or all five keys are true at
  that moment; and the handler returns the state it was given (no flag, no item, no
  panel changes) when the key is already true.
\<close>

theorem benefit_stage_advance:
  assumes "run es game0 = Inr s" and "active s = BenefitScene"
  shows "(benefit_nextButton s \<longrightarrow> allCollected s)
       \<and> (allCollected s \<and> owned BenefitScene s = [] \<longrightarrow> benefit_nextButton s)
       \<and> (\<forall>v \<in> set (owned BenefitScene s).
            benefit_nextButton (closeButton_pointerdown v s)
            = (benefit_nextButton s \<or> allCollected s))
       \<and> (\<forall>k. truthy (benefitsCollected s) k \<longrightarrow>
              collectBenefit k s = s \<and> step (Overlap_benefit k) s = Inr s)"
proof -
  from assms(1) have "benefit_ok s"
    by (simp add: reachable_ok)
  with assms(2) have "benefit_nextButton s \<longrightarrow> allCollected s"
    and "allCollected s \<and> owned BenefitScene s = [] \<longrightarrow> benefit_nextButton s"
    by (auto simp: benefit_ok_def)
  moreover have "\<forall>v \<in> set (owned BenefitScene s).
      benefit_nextButton (closeButton_pointerdown v s) = (benefit_nextButton s \<or> allCollected s)"
    by (auto simp: owned_def closeButton_pointerdown_def allCollected_def)
  moreover have "\<forall>k. truthy (benefitsCollected s) k \<longrightarrow>
      collectBenefit k s = s \<and> step (Overlap_benefit k) s = Inr s"
    by (simp add: collectBenefit_def step_def)
  ultimately show ?thesis by blast
qed

text \<open>
  Tried on the sample: all five benefits are collected and the fifth panel is still
  open, so the button is still hidden; closing that panel shows it; touching the
  memory item again changes nothing.
\<close>

theorem benefit_stage_advance_witness:
  "run trace_benefits game0 = Inr st_benefits
   \<and> active st_benefits = BenefitScene
   \<and> allCollected st_benefits
   \<and> \<not> benefit_nextButton st_benefits
   \<and> map oid (owned BenefitScene st_benefits) = [4]
   \<and> benefit_nextButton
        (closeButton_pointerdown (hd (owned BenefitScene st_benefits)) st_benefits)
   \<and> truthy (benefitsCollected st_benefits) ''memory''
   \<and> collectBenefit ''memory'' st_benefits = st_benefits"
proof -
  have o: "map oid (owned BenefitScene st_benefits) = [4]"
    by (simp add: st_benefits_def trace_benefits_def eval_defs)
  have c: "allCollected st_benefits"
    by (simp add: st_benefits_def trace_benefits_def eval_defs)
  have n: "\<not> benefit_nextButton st_benefits"
    by (simp add: st_benefits_def trace_benefits_def eval_defs)
  have m: "truthy (benefitsCollected st_benefits) ''memory''"
    by (simp add: st_benefits_def trace_benefits_def eval_defs)
  from o have h: "hd (owned BenefitScene st_benefits) \<in> set (owned BenefitScene st_benefits)"
    by (cases "owned BenefitScene st_benefits") simp_all
  show ?thesis
    using benefit_stage_advance [OF sample_benefits(1,2)] h c n m o sample_benefits(1,2)
    by blast
qed

subsection \<open>C2: the bridge stage\<close>




subsection \<open>C3: the build steps\<close>




subsection \<open>C4: the example stations\<close>

text \<open>
  C4. Visiting all four stations, in any order, sets all four flags in
  \<open>examplesVisited\<close> and reveals the Finish button; visiting a station whose flag is
  already true changes nothing and presents no panel. In every state the game reaches
  with the example stage running: touching any of the four stations returns with its
  flag true, and no step of the stage clears a flag, whatever the order; when all four
  are true, every panel of the stage is closed and no \<open>run()\<close> is still pending, the
  button is visible; a visible button means that all four are true; closing a panel
  leaves the button visible exactly when it was visible or all four are true; and the
  handler returns the state it was given when the station's flag is already true.
  The hashing station's \<open>run()\<close> is modelled as settling with a value, as the
  specification says of it.
\<close>

theorem example_stage_finish:
  assumes "run es game0 = Inr s" and "active s = ExampleScene"
  shows "(example_nextButton s \<longrightarrow> allVisited s)
       \<and> (allVisited s \<and> owned ExampleScene s = [] \<and> pending s = [] \<longrightarrow> example_nextButton s)
       \<and> (allVisited s \<longleftrightarrow> (\<forall>k \<in> set station_keys. truthy (examplesVisited s) k))
       \<and> (\<forall>k \<in> set station_keys. \<forall>out.
            \<exists>s'. step (Overlap_station k out) s = Inr s' \<and> truthy (examplesVisited s') k)
       \<and> (\<forall>e s'. step e s = Inr s' \<longrightarrow>
            (\<forall>k. truthy (examplesVisited s) k \<longrightarrow> truthy (examplesVisited s') k))
       \<and> (\<forall>v \<in> set (owned ExampleScene s).
            example_nextButton (closeButton_pointerdown v s)
            = (example_nextButton s \<or> allVisited s))
       \<and> (\<forall>k out. truthy (examplesVisited s) k \<longrightarrow>
            visitStation k out s = Inr s \<and> step (Overlap_station k out) s = Inr s)"
proof -
  from assms(1) have "example_ok s"
    by (simp add: reachable_ok)
  with assms(2) have "example_nextButton s \<longrightarrow> allVisited s"
    and "allVisited s \<and> owned ExampleScene s = [] \<and> pending s = [] \<longrightarrow> example_nextButton s"
    by (auto simp: example_ok_def)
  moreover note allVisited_iff [of s]
  moreover have "\<forall>k \<in> set station_keys. \<forall>out.
      \<exists>s'. step (Overlap_station k out) s = Inr s' \<and> truthy (examplesVisited s') k"
    using assms(2) by (simp add: step_def visit_total)
  moreover have "\<forall>e s'. step e s = Inr s' \<longrightarrow>
      (\<forall>k. truthy (examplesVisited s) k \<longrightarrow> truthy (examplesVisited s') k)"
  proof (intro allI impI)
    fix e s' k
    assume st: "step e s = Inr s'" and tr: "truthy (examplesVisited s) k"
    show "truthy (examplesVisited s') k"
    proof (cases "e = ReplayClick")
      case True
      with st assms(2) have "s' = s" by (simp add: step_def)
      with tr show ?thesis by simp
    next
      case False
      with st tr show ?thesis by (simp add: flags_step)
    qed
  qed
  moreover have "\<forall>v \<in> set (owned ExampleScene s).
      example_nextButton (closeButton_pointerdown v s) = (example_nextButton s \<or> allVisited s)"
    by (auto simp: owned_def closeButton_pointerdown_def allVisited_def)
  moreover have "\<forall>k out. truthy (examplesVisited s) k \<longrightarrow>
      visitStation k out s = Inr s \<and> step (Overlap_station k out) s = Inr s"
    by (simp add: visitStation_def step_def)
  ultimately show ?thesis by blast
qed

text \<open>
  Tried on the sample: the stations were visited in the order random, hashing, jwt,
  password, with the hashing panel arriving after the jwt one; the last panel is still
  open and the button hidden; closing it shows Finish; touching jwt again changes
  nothing.
\<close>

theorem example_stage_finish_witness:
  "run trace_stations game0 = Inr st_stations
   \<and> active st_stations = ExampleScene
   \<and> allVisited st_stations
   \<and> \<not> example_nextButton st_stations
   \<and> map oid (owned ExampleScene st_stations) = [15]
   \<and> example_nextButton
        (closeButton_pointerdown (hd (owned ExampleScene st_stations)) st_stations)
   \<and> ''jwt'' \<in> set station_keys
   \<and> truthy (examplesVisited st_stations) ''jwt''
   \<and> visitStation ''jwt'' ''j'' st_stations = Inr st_stations"
proof -
  have o: "map oid (owned ExampleScene st_stations) = [15]"
    using sample_stations(5) by (simp add: owned_def st_stations_def trace_defs replicate_20 sign_walk_6 eval_defs num_defs)
  from sample_stations(3) have j: "''jwt'' \<in> set station_keys"
    "truthy (examplesVisited st_stations) ''jwt''"
    by (simp_all add: allVisited_iff station_keys_def stations_def)
  from o have h: "hd (owned ExampleScene st_stations) \<in> set (owned ExampleScene st_stations)"
    by (cases "owned ExampleScene st_stations") simp_all
  show ?thesis
    using example_stage_finish [OF sample_stations(1,2)] h j o sample_stations
    by blast
qed

subsection \<open>C5: the session state\<close>

text \<open>
  C5. Whatever the game has done so far and whatever happens next: after the step the
  keys of \<open>benefitsCollected\<close> are among the five benefit keys and the keys of
  \<open>examplesVisited\<close> among the four station keys, and unless the step is the click on
  Play Again, every key that was true before is true after.
\<close>

theorem session_state_invariant:
  assumes "run es game0 = Inr s" and "step e s = Inr s'"
  shows "dom (benefitsCollected s') \<subseteq> set benefit_keys
       \<and> dom (examplesVisited s') \<subseteq> set station_keys
       \<and> (e \<noteq> ReplayClick \<longrightarrow>
            (\<forall>k. truthy (benefitsCollected s) k \<longrightarrow> truthy (benefitsCollected s') k)
            \<and> (\<forall>k. truthy (examplesVisited s) k \<longrightarrow> truthy (examplesVisited s') k))"
proof -
  from assms(1) have "keys_ok s"
    by (simp add: reachable_ok)
  then have "keys_ok s'"
    using assms(2) by (rule keys_ok_step)
  then show ?thesis
    using flags_step [OF assms(2)] by (simp add: keys_ok_def)
qed

text \<open>
  Tried on the sample: closing the fifth benefit panel keeps \<open>lowlevel\<close> true and the
  keys within the fixed sets.
\<close>

theorem session_state_invariant_witness:
  "run trace_benefits game0 = Inr st_benefits
   \<and> step (CloseClick 4) st_benefits = Inr (projr (step (CloseClick 4) st_benefits))
   \<and> CloseClick 4 \<noteq> ReplayClick
   \<and> truthy (benefitsCollected st_benefits) ''lowlevel''
   \<and> truthy (benefitsCollected (projr (step (CloseClick 4) st_benefits))) ''lowlevel''
   \<and> dom (benefitsCollected (projr (step (CloseClick 4) st_benefits))) \<subseteq> set benefit_keys
   \<and> dom (examplesVisited (projr (step (CloseClick 4) st_benefits))) \<subseteq> set station_keys"
proof -
  have r: "step (CloseClick 4) st_benefits = Inr (projr (step (CloseClick 4) st_benefits))"
    by (simp add: step_def)
  have t: "truthy (benefitsCollected st_benefits) ''lowlevel''"
    by (simp add: st_benefits_def trace_benefits_def eval_defs)
  show ?thesis
    using session_state_invariant [OF sample_benefits(1) r] r t sample_benefits(1)
    by simp
qed

subsection \<open>C6: replay\<close>

text \<open>
  C6. In every state in which the conclusion stage is running, the click on Play Again
  returns a state in which both session mappings are empty and the title stage is
  running.
\<close>

theorem replay_resets:
  assumes "active s = ConclusionScene"
  shows "step ReplayClick s = Inr (exitButton_pointerdown s)
       \<and> benefitsCollected (exitButton_pointerdown s) = Map.empty
       \<and> examplesVisited (exitButton_pointerdown s) = Map.empty
       \<and> active (exitButton_pointerdown s) = TitleScene"
  using assms by (simp add: step_def exitButton_pointerdown_def)

text \<open>Tried at the end of the sample playthrough.\<close>

theorem replay_resets_witness:
  "run trace_conclusion game0 = Inr st_conclusion
   \<and> active st_conclusion = ConclusionScene
   \<and> step ReplayClick st_conclusion = Inr (exitButton_pointerdown st_conclusion)
   \<and> benefitsCollected (exitButton_pointerdown st_conclusion) = Map.empty
   \<and> examplesVisited (exitButton_pointerdown st_conclusion) = Map.empty
   \<and> active (exitButton_pointerdown st_conclusion) = TitleScene"
  using replay_resets [OF sample_conclusion(2)] sample_conclusion
  by simp

subsection \<open>C7: one panel at a time\<close>

text \<open>
  C7 says that an open panel blocks input to the scene under it and that no handler can
  present a second panel before the first is closed. The comment above \<open>createOverlay\<close>
  says the same (the panels "block input to the rest of the game until dismissed"), but
  the function only adds objects to the display list: it neither pauses the scene nor
  disables its input, the player keeps moving under the panel, and the overlap
  callbacks keep firing. The program at the failing input: the player touches the
  performance item and, with its panel still open, the memory item. Both handlers ran,
  two panels of the benefit stage are open at once, and no promise is resolved.
\<close>

theorem overlays_stack:
  "run trace_two_panels game0 = Inr st_two_panels
   \<and> active st_two_panels = BenefitScene
   \<and> map oid (owned BenefitScene st_two_panels) = [0, 1]
   \<and> truthy (benefitsCollected st_two_panels) ''performance''
   \<and> truthy (benefitsCollected st_two_panels) ''memory''
   \<and> resolved st_two_panels = []"
  by (simp add: st_two_panels_def trace_two_panels_def eval_defs)

subsection \<open>C8: a missing animation file\<close>

text \<open>
  C8 says that \<open>BootScene.create\<close> completes when the optional animation JSON failed to
  load. The code guards a missing \<open>anims\<close> field with \<open>|| []\<close>, but reads the field from
  whatever the cache returns: with no entry for \<open>robotAnims\<close> that is \<open>undefined\<close>, the
  read throws, \<open>scene.start('TitleScene')\<close> is never reached, and no later event gets the
  game out of the boot scene. With the file loaded, and with or without an \<open>anims\<close>
  field in it, the title stage starts. The atlas is not read by \<open>create\<close> at all.
\<close>

theorem boot_without_animation_file:
  "BootScene_create Map.empty game0 = Inl TypeError
   \<and> run (Loaded Map.empty # es) game0 = Inl TypeError
   \<and> active (projr (BootScene_create good_cache game0)) = TitleScene
   \<and> active (projr (BootScene_create [''robotAnims'' \<mapsto> \<lparr> anims_field = None \<rparr>] game0))
       = TitleScene"
  by (simp add: BootScene_create_def step_def game0_def good_cache_def)

subsection \<open>C9: the overlay presenter\<close>

text \<open>
  C9. In every state the game reaches: no promise has been resolved twice, and none of
  an overlay that is still open; a step resolves a promise only if it is the click on
  the Close button of an open overlay of the running scene, and then it resolves that
  overlay's promise once and removes the overlay with all its elements; and an overlay
  created now gets a number never used before, resolves nothing by being created, and
  once its Close button is clicked the display list is what it was before the overlay
  was created.
\<close>

theorem overlay_presenter_contract:
  assumes "run es game0 = Inr s"
  shows "distinct (resolved s)
       \<and> set (resolved s) \<inter> oid ` set (overlays s) = {}
       \<and> (\<forall>e s'. step e s = Inr s' \<longrightarrow>
            resolved s' = resolved s
            \<or> (\<exists>v \<in> set (overlays s). e = CloseClick (oid v) \<and> owner v = active s
                  \<and> resolved s' = resolved s @ [oid v]
                  \<and> oid v \<notin> oid ` set (overlays s')
                  \<and> overlays s' = filter (\<lambda>w. oid w \<noteq> oid v) (overlays s)))
       \<and> (\<forall>k c. overlays (createOverlay k c s) =
                    overlays s @ [\<lparr> oid = overlay_seq s, owner = k,
                                     elements = overlay_elements c \<rparr>]
              \<and> resolved (createOverlay k c s) = resolved s
              \<and> overlay_seq s \<notin> oid ` set (overlays s) \<and> overlay_seq s \<notin> set (resolved s)
              \<and> overlays (closeButton_pointerdown (last (overlays (createOverlay k c s)))
                             (createOverlay k c s)) = overlays s
              \<and> resolved (closeButton_pointerdown (last (overlays (createOverlay k c s)))
                             (createOverlay k c s)) = resolved s @ [overlay_seq s])"
proof -
  from assms have f: "fresh_ok s"
    by (simp add: reachable_ok)
  then have "distinct (resolved s)" and "set (resolved s) \<inter> oid ` set (overlays s) = {}"
    by (auto simp: fresh_ok_def)
  moreover have "\<forall>e s'. step e s = Inr s' \<longrightarrow>
            resolved s' = resolved s
            \<or> (\<exists>v \<in> set (overlays s). e = CloseClick (oid v) \<and> owner v = active s
                  \<and> resolved s' = resolved s @ [oid v]
                  \<and> oid v \<notin> oid ` set (overlays s')
                  \<and> overlays s' = filter (\<lambda>w. oid w \<noteq> oid v) (overlays s))"
    by (simp add: resolved_step)
  moreover note create_then_close [OF f]
  ultimately show ?thesis
    by blast
qed

text \<open>
  Tried on the sample: with the last station panel (number 15) open, the click on its
  Close button resolves promise 15, once, and leaves no overlay.
\<close>

theorem overlay_presenter_contract_witness:
  "run trace_stations game0 = Inr st_stations
   \<and> map oid (overlays st_stations) = [15]
   \<and> step (CloseClick 15) st_stations = Inr st_finish
   \<and> resolved st_finish = resolved st_stations @ [15]
   \<and> overlays st_finish = []
   \<and> distinct (resolved st_finish)
   \<and> distinct (resolved st_stations)"
proof -
  have "st_finish = projr (step (CloseClick 15) st_stations)"
    by (simp add: close_last_panel)
  also have "resolved \<dots> = resolved st_stations @ [15]"
    using sample_stations(2,5,7)
    by (auto simp: step_def closeButton_pointerdown_def)
  finally have "resolved st_finish = resolved st_stations @ [15]" .
  with overlay_presenter_contract [OF sample_finish(1)]
    overlay_presenter_contract [OF sample_stations(1)]
  show ?thesis
    using close_last_panel sample_finish(3) sample_stations(1,5) by blast
qed

subsection \<open>C10: what replay leaves as it was\<close>

text \<open>
  C10. The click on Play Again, in a conclusion stage the game has reached, changes
  the two session mappings and the running scene and nothing else; starting a scene
  never assigns \<open>buildProgress\<close>, \<open>overlayShown\<close> or \<open>stepIndex\<close> (the constructors set
  the first and the last, once). So in every state of the playthrough that follows,
  the progress is still \<open>1\<close>, \<open>overlayShown\<close> is still set and \<open>stepIndex\<close> is still 6;
  whenever the bridge stage is running its Next button is hidden and no panel of it is
  open, so the game never gets past the bridge stage; every signpost touch returns the
  state unchanged; and if the build stage were started from such a state, it would
  stay, at every step, with the pointer at 6, no panel and a hidden Next button.
\<close>

theorem replay_keeps_stage_fields:
  assumes "run es1 game0 = Inr s1" and "active s1 = ConclusionScene"
    and "run es2 (exitButton_pointerdown s1) = Inr s2"
  shows "exitButton_pointerdown s1 =
           s1 \<lparr> benefitsCollected := Map.empty, examplesVisited := Map.empty,
                active := TitleScene \<rparr>
       \<and> (\<forall>k t. buildProgress (scene_start k t) = buildProgress t
                \<and> overlayShown (scene_start k t) = overlayShown t
                \<and> stepIndex (scene_start k t) = stepIndex t)
       \<and> buildProgress s2 = ONE \<and> overlayShown s2 \<and> stepIndex s2 = length steps
       \<and> (active s2 = TitleScene \<or> active s2 = BenefitScene \<or> active s2 = NapiScene)
       \<and> (active s2 = NapiScene \<longrightarrow> \<not> napi_nextButton s2 \<and> owned NapiScene s2 = [])
       \<and> (\<forall>i < length steps. reachSign i s2 = Inr s2)
       \<and> (owned BuildScene s2 = [] \<longrightarrow> build_stuck (scene_start BuildScene s2))
       \<and> (\<forall>t e t'. build_stuck t \<and> step e t = Inr t' \<longrightarrow> build_stuck t')"
proof -
  have "second_run (exitButton_pointerdown s1)"
    using assms(1,2) by (rule replay_second_run)
  with assms(3) have s2: "second_run s2"
    by (rule run_invariant) (rule second_run_step)
  have "\<forall>t e t'. build_stuck t \<and> step e t = Inr t' \<longrightarrow> build_stuck t'"
    by (blast intro: build_stuck_step)
  moreover from s2 have "owned BuildScene s2 = [] \<longrightarrow> build_stuck (scene_start BuildScene s2)"
    by (auto simp: build_stuck_def second_run_def owned_def filter_empty_conv)
  moreover from s2 have "\<forall>i < length steps. reachSign i s2 = Inr s2"
    by (simp add: second_run_def reachSign_def)
  moreover note replay_frame [OF assms(1,2)]
  ultimately show ?thesis
    using s2 by (simp add: second_run_def)
qed

text \<open>
  Tried on the sample: after the first playthrough and Play Again, the five benefits
  are collected again and the bridge stage is entered; two presses later no panel is
  open and Next is hidden.
\<close>

theorem replay_keeps_stage_fields_witness:
  "run trace_conclusion game0 = Inr st_conclusion
   \<and> active st_conclusion = ConclusionScene
   \<and> run trace_again (exitButton_pointerdown st_conclusion) = Inr st_again
   \<and> active st_again = NapiScene
   \<and> buildProgress st_again = ONE \<and> overlayShown st_again \<and> stepIndex st_again = length steps
   \<and> \<not> napi_nextButton st_again \<and> owned NapiScene st_again = []
   \<and> 0 < length steps \<and> reachSign 0 st_again = Inr st_again
   \<and> owned BuildScene st_again = []
   \<and> build_stuck (scene_start BuildScene st_again)"
  using replay_keeps_stage_fields [OF sample_conclusion(1,2) sample_again(1)]
    sample_conclusion sample_again
  by (simp add: owned_def length_steps)


end
